theory Spec2Isabelle
  imports Main "HOL-Library.Word"
begin

section \<open>The DTLS session supervisor (dtls/session.go)\<close>

text \<open>
  The session owns one transport connection, a list of close hooks, a cancellable
  context and, while \<open>Run\<close> executes, an idle timer with the goroutine that waits for it.
  The model is a record of the session's fields together with the objects the session
  shares with its environment (the cancellation flags of contexts, the timer, the
  goroutine) and a trace of the calls the session makes on its collaborators.

  Collaborators that live outside the file (the transport connection, the message, the
  message processor, the close hooks) are not modelled by code: what each of their calls
  returns is a parameter of the operation that makes the call, and the call itself is an
  event of the trace. A close hook is an opaque callback that returns normally; it is
  known by an identifier.

  The repository holds a second, earlier version of the file, without \<open>closeSocket\<close>,
  \<open>SetContextValue\<close> and the idle timer; its \<open>AddOnClose\<close>, \<open>popOnClose\<close>, \<open>Close\<close> and
  \<open>WriteMessage\<close> are those modelled here.
\<close>

subsection \<open>Data\<close>

type_synonym byte = "8 word"
type_synonym EventFunc = nat
type_synonym key = nat
type_synonym val = nat

text \<open>
  Errors by origin: the three collaborators' own errors, and \<open>fmt.Errorf(msg, err)\<close> with
  the \<open>%w\<close> verb, which wraps an error.
\<close>

datatype error =
    MarshalError nat
  | TransportError nat
  | ProcessingError nat
  | Errorf string error

text \<open>
  A context is built by the constructors of package \<open>context\<close>. A cancellable node
  carries the identity of its cancel function; whether it has been cancelled is kept in
  the state, in \<open>cancelledCtxs\<close>.
\<close>

datatype "context" =
    Background
  | WithCancel "context" nat
  | WithValue "context" key val

fun ctx_done :: "nat set \<Rightarrow> context \<Rightarrow> bool" where
  "ctx_done cs Background = False"
| "ctx_done cs (WithCancel c i) = (i \<in> cs \<or> ctx_done cs c)"
| "ctx_done cs (WithValue c k v) = ctx_done cs c"

fun ctx_Value :: "context \<Rightarrow> key \<Rightarrow> val option" where
  "ctx_Value Background k = None"
| "ctx_Value (WithCancel c i) k = ctx_Value c k"
| "ctx_Value (WithValue c k' v) k = (if k = k' then Some v else ctx_Value c k)"

text \<open>The identities of the cancel functions inside a context, and one beyond them all.\<close>

fun ctx_ids :: "context \<Rightarrow> nat set" where
  "ctx_ids Background = {}"
| "ctx_ids (WithCancel c i) = insert i (ctx_ids c)"
| "ctx_ids (WithValue c k v) = ctx_ids c"

fun next_id :: "context \<Rightarrow> nat" where
  "next_id Background = 0"
| "next_id (WithCancel c i) = max (Suc i) (next_id c)"
| "next_id (WithValue c k v) = next_id c"

datatype event =
    EvCancel
  | EvHook EventFunc
  | EvConnClose nat
  | EvRead nat "context"
  | EvProcess "byte list"
  | EvWrite nat "context" "byte list"
  | EvNewTimer nat
  | EvTimerReset nat
  | EvTimerStop
  | EvTimerRecv

datatype goroutine = NotStarted | Waiting | Exited

text \<open>
  The fields of \<open>Session\<close>, then the shared objects. \<open>cancel\<close> is the identity of the
  cancel function stored in the session; \<open>timerArmed\<close> says that the timer of \<open>Run\<close>
  will still expire, \<open>timerC\<close> that its channel holds a value; \<open>waiter\<close> is the goroutine
  started by \<open>Run\<close>. These three describe the timer and the goroutine of the latest call
  of \<open>Run\<close>.
\<close>

record session =
  connection :: nat
  maxMessageSize :: int
  closeSocket :: bool
  onClose :: "EventFunc list"
  cancel :: nat
  ctx :: "context"
  cancelledCtxs :: "nat set"
  timerArmed :: bool
  timerC :: bool
  waiter :: goroutine
  trace :: "event list"

text \<open>
  A message to write: what \<open>req.Marshal()\<close> returns (the code of its error, or the
  bytes) and \<open>req.Context()\<close>.
\<close>

record msg =
  Marshal :: "nat + byte list"
  msgContext :: "context"

datatype outcome = Returned "error option" | Panicked

subsection \<open>Construction and accessors\<close>

text \<open>
  \<open>context.WithCancel(ctx)\<close> allocates a cancel function whose identity is new: here,
  one greater than every identity inside the parent.
\<close>

definition NewSession :: "context \<Rightarrow> nat \<Rightarrow> int \<Rightarrow> bool \<Rightarrow> session" where
  "NewSession ctx0 conn mms cs =
     \<lparr> connection = conn, maxMessageSize = mms, closeSocket = cs, onClose = [],
       cancel = next_id ctx0, ctx = WithCancel ctx0 (next_id ctx0),
       cancelledCtxs = {}, timerArmed = False, timerC = False, waiter = NotStarted,
       trace = [] \<rparr>"

definition Context :: "session \<Rightarrow> context" where
  "Context s = ctx s"

text \<open>\<open>Done\<close> returns a channel; the model says whether that channel is closed.\<close>

definition Done :: "session \<Rightarrow> bool" where
  "Done s = ctx_done (cancelledCtxs s) (Context s)"

definition MaxMessageSize :: "session \<Rightarrow> int" where
  "MaxMessageSize s = maxMessageSize s"

subsection \<open>Close hooks\<close>

definition AddOnClose :: "EventFunc \<Rightarrow> session \<Rightarrow> session" where
  "AddOnClose f s = s\<lparr>onClose := onClose s @ [f]\<rparr>"

definition popOnClose :: "session \<Rightarrow> EventFunc list \<times> session" where
  "popOnClose s = (onClose s, s\<lparr>onClose := []\<rparr>)"

definition call_hook :: "EventFunc \<Rightarrow> session \<Rightarrow> session" where
  "call_hook f s = s\<lparr>trace := trace s @ [EvHook f]\<rparr>"

fun call_hooks :: "EventFunc list \<Rightarrow> session \<Rightarrow> session" where
  "call_hooks [] s = s"
| "call_hooks (f # fs) s = call_hooks fs (call_hook f s)"

text \<open>
  \<open>close\<close>: the parameter \<open>cres\<close> is what \<open>connection.Close()\<close> returns when it is
  called.
\<close>

definition close :: "nat option \<Rightarrow> session \<Rightarrow> error option \<times> session" where
  "close cres s =
     (let (tmp, s1) = popOnClose s;
          s2 = call_hooks tmp s1
      in if closeSocket s2
         then (map_option TransportError cres,
               s2\<lparr>trace := trace s2 @ [EvConnClose (connection s2)]\<rparr>)
         else (None, s2))"

definition Close :: "session \<Rightarrow> error option \<times> session" where
  "Close s =
     (None, s\<lparr>cancelledCtxs := insert (cancel s) (cancelledCtxs s),
              trace := trace s @ [EvCancel]\<rparr>)"

subsection \<open>Context values and writes\<close>

text \<open>
  \<open>context.WithValue\<close> requires a comparable key that is not nil; keys are values of a
  type with equality.
\<close>

definition SetContextValue :: "key \<Rightarrow> val \<Rightarrow> session \<Rightarrow> session" where
  "SetContextValue k v s = s\<lparr>ctx := WithValue (Context s) k v\<rparr>"

text \<open>\<open>WriteMessage\<close>: \<open>wres\<close> is what \<open>connection.WriteWithContext\<close> returns.\<close>

definition WriteMessage :: "msg \<Rightarrow> nat option \<Rightarrow> session \<Rightarrow> error option \<times> session" where
  "WriteMessage req wres s =
     (case Marshal req of
        Inl e \<Rightarrow> (Some (Errorf ''cannot marshal: '' (MarshalError e)), s)
      | Inr data \<Rightarrow>
          (map_option TransportError wres,
           s\<lparr>trace := trace s @ [EvWrite (connection s) (msgContext req) data]\<rparr>))"

subsection \<open>The idle timer and its goroutine\<close>

text \<open>Durations are counted in nanoseconds, as \<open>time.Duration\<close> does.\<close>

definition Second :: nat where
  "Second = 1000000000"

definition timeout :: nat where
  "timeout = Second * 300"

definition NewTimer :: "nat \<Rightarrow> session \<Rightarrow> session" where
  "NewTimer d s = s\<lparr>timerArmed := True, timerC := False, trace := trace s @ [EvNewTimer d]\<rparr>"

definition timer_Reset :: "nat \<Rightarrow> session \<Rightarrow> session" where
  "timer_Reset d s = s\<lparr>timerArmed := True, trace := trace s @ [EvTimerReset d]\<rparr>"

definition timer_Stop :: "session \<Rightarrow> session" where
  "timer_Stop s = s\<lparr>timerArmed := False, trace := trace s @ [EvTimerStop]\<rparr>"

text \<open>The runtime's part: an armed timer expires and sends on its channel.\<close>

definition timer_expire :: "session \<Rightarrow> session" where
  "timer_expire s = (if timerArmed s then s\<lparr>timerArmed := False, timerC := True\<rparr> else s)"

text \<open>
  The goroutine of \<open>Run\<close>: it waits in a \<open>select\<close> whose only case is the timer's
  channel. One scheduling of it either finds a value there (then it stops the timer,
  calls \<open>Close\<close> and returns) or leaves it blocked.
\<close>

definition timer_goroutine :: "session \<Rightarrow> session" where
  "timer_goroutine s =
     (if waiter s = Waiting \<and> timerC s
      then (let s1 = s\<lparr>timerC := False, trace := trace s @ [EvTimerRecv]\<rparr>;
                s2 = timer_Stop s1;
                (err, s3) = Close s2
            in s3\<lparr>waiter := Exited\<rparr>)
      else s)"

subsection \<open>What other goroutines and the environment do\<close>

text \<open>
  \<open>ExtCancel i\<close> is the owner of another context cancelling it; the session's own cancel
  function is private to the session, so \<open>i\<close> is never that one.
\<close>

datatype action =
    CallClose
  | CallAddOnClose EventFunc
  | CallSetContextValue key val
  | CallWriteMessage msg "nat option"
  | TimerExpire
  | Goroutine
  | ExtCancel nat

fun act :: "action \<Rightarrow> session \<Rightarrow> session" where
  "act CallClose s = snd (Close s)"
| "act (CallAddOnClose f) s = AddOnClose f s"
| "act (CallSetContextValue k v) s = SetContextValue k v s"
| "act (CallWriteMessage req wres) s = snd (WriteMessage req wres s)"
| "act TimerExpire s = timer_expire s"
| "act Goroutine s = timer_goroutine s"
| "act (ExtCancel i) s =
     (if i = cancel s then s else s\<lparr>cancelledCtxs := insert i (cancelledCtxs s)\<rparr>)"

fun acts :: "action list \<Rightarrow> session \<Rightarrow> session" where
  "acts [] s = s"
| "acts (a # as) s = acts as (act a s)"

subsection \<open>Run\<close>

text \<open>
  The loop of \<open>Run\<close> is driven by a script: what each \<open>ReadWithContext\<close> returns (an
  error, or the bytes read together with what \<open>Process\<close> then returns), interleaved with
  the actions of other goroutines that happen while the loop is blocked in the read.
  When the script is used up the loop is still blocked in a read: the result is \<open>None\<close>
  with the state reached.
\<close>

datatype step =
    ReadErr nat
  | ReadOk "byte list" "nat option"
  | Act action

fun Run_loop :: "step list \<Rightarrow> session \<Rightarrow> outcome option \<times> session" where
  "Run_loop [] s = (None, s)"
| "Run_loop (Act a # rest) s = Run_loop rest (act a s)"
| "Run_loop (ReadErr e # rest) s =
     (let s1 = s\<lparr>trace := trace s @ [EvRead (connection s) (Context s)]\<rparr>;
          s2 = timer_Reset timeout s1
      in (Some (Returned (Some (TransportError e))), s2))"
| "Run_loop (ReadOk data pres # rest) s =
     (let s1 = s\<lparr>trace := trace s @ [EvRead (connection s) (Context s)]\<rparr>;
          s2 = timer_Reset timeout s1
      in if maxMessageSize s2 < int (length data) then (Some Panicked, s2)
         else (let s3 = s2\<lparr>trace := trace s2 @ [EvProcess data]\<rparr>
               in case pres of
                    Some e \<Rightarrow> (Some (Returned (Some (ProcessingError e))), s3)
                  | None \<Rightarrow> Run_loop rest s3))"

text \<open>The first deferred function of \<open>Run\<close>, on the named result \<open>err\<close>.\<close>

definition Run_deferred :: "nat option \<Rightarrow> error option \<Rightarrow> session \<Rightarrow> error option \<times> session" where
  "Run_deferred cres err s =
     (let (err1, s1) = Close s;
          err' = (if err = None then err1 else err);
          (err1', s2) = close cres s1;
          err'' = (if err' = None then err1' else err')
      in (err'', s2))"

text \<open>From the timer's creation to the statement \<open>go func() {...}()\<close>.\<close>

definition Run_begin :: "session \<Rightarrow> session" where
  "Run_begin s = (NewTimer timeout s)\<lparr>waiter := Waiting\<rparr>"

text \<open>
  \<open>Run\<close>. \<open>make([]byte, n)\<close> panics on a negative \<open>n\<close>, when only the first deferred
  function is registered; a panic runs the deferred functions and goes on to the caller.
  The deferred functions run in the reverse order of their registration. They are taken
  as one step: what other goroutines do comes before it or after it.
\<close>

definition Run :: "nat option \<Rightarrow> step list \<Rightarrow> session \<Rightarrow> outcome option \<times> session" where
  "Run cres script s =
     (if maxMessageSize s < 0 then (Some Panicked, snd (Run_deferred cres None s))
      else
        (case Run_loop script (Run_begin s) of
           (None, s3) \<Rightarrow> (None, s3)
         | (Some out, s3) \<Rightarrow>
             (let s4 = timer_Stop s3
              in case out of
                   Returned err \<Rightarrow>
                     (let (err', s5) = Run_deferred cres err s4 in (Some (Returned err'), s5))
                 | Panicked \<Rightarrow> (Some Panicked, snd (Run_deferred cres None s4)))))"

subsection \<open>A session's history\<close>

text \<open>
  What happens to a session after \<open>NewSession\<close>: actions of its users and of the
  environment, and calls of \<open>Run\<close> (each with what the transport's \<open>Close\<close> will return
  and with the script of its loop).
\<close>

datatype cmd = Do action | DoRun "nat option" "step list"

fun exec :: "cmd list \<Rightarrow> session \<Rightarrow> session" where
  "exec [] s = s"
| "exec (Do a # cs) s = exec cs (act a s)"
| "exec (DoRun cres script # cs) s = exec cs (snd (Run cres script s))"

section \<open>Notions used by the properties\<close>

text \<open>The first error that is not nil.\<close>

fun first_error :: "error option list \<Rightarrow> error option" where
  "first_error [] = None"
| "first_error (None # es) = first_error es"
| "first_error (Some e # es) = Some e"

text \<open>Observations of a trace.\<close>

fun hooks_fired :: "event list \<Rightarrow> EventFunc list" where
  "hooks_fired [] = []"
| "hooks_fired (EvHook f # t) = f # hooks_fired t"
| "hooks_fired (e # t) = hooks_fired t"

fun conn_closes :: "event list \<Rightarrow> nat" where
  "conn_closes [] = 0"
| "conn_closes (EvConnClose c # t) = Suc (conn_closes t)"
| "conn_closes (e # t) = conn_closes t"

fun timer_resets :: "nat \<Rightarrow> event list \<Rightarrow> nat" where
  "timer_resets d [] = 0"
| "timer_resets d (EvTimerReset d' # t) = (if d' = d then Suc (timer_resets d t) else timer_resets d t)"
| "timer_resets d (e # t) = timer_resets d t"

fun reads_returned :: "event list \<Rightarrow> nat" where
  "reads_returned [] = 0"
| "reads_returned (EvRead c x # t) = Suc (reads_returned t)"
| "reads_returned (e # t) = reads_returned t"

text \<open>Every read that returns is followed at once by a reset of the timer to \<open>timeout\<close>.\<close>

definition is_EvRead :: "event \<Rightarrow> bool" where
  "is_EvRead e = (case e of EvRead c x \<Rightarrow> True | _ \<Rightarrow> False)"

fun reset_follows_read :: "event list \<Rightarrow> bool" where
  "reset_follows_read [] = True"
| "reset_follows_read (e # t) =
     (if is_EvRead e
      then (case t of [] \<Rightarrow> False | e' # t' \<Rightarrow> e' = EvTimerReset timeout \<and> reset_follows_read t)
      else reset_follows_read t)"

fun timer_recvs :: "event list \<Rightarrow> nat" where
  "timer_recvs [] = 0"
| "timer_recvs (EvTimerRecv # t) = Suc (timer_recvs t)"
| "timer_recvs (e # t) = timer_recvs t"

text \<open>
  A step of the script that ends the loop of a session whose \<open>maxMessageSize\<close> is \<open>m\<close>:
  a read that fails, a read of more than \<open>m\<close> bytes (the slice expression panics), or a
  read whose bytes \<open>Process\<close> rejects.
\<close>

fun fatal :: "int \<Rightarrow> step \<Rightarrow> bool" where
  "fatal m (ReadErr e) = True"
| "fatal m (ReadOk data pres) = (m < int (length data) \<or> pres \<noteq> None)"
| "fatal m (Act a) = False"

text \<open>The part of a script that the loop executes: up to its first fatal step.\<close>

fun consumed :: "int \<Rightarrow> step list \<Rightarrow> step list" where
  "consumed m [] = []"
| "consumed m (st # rest) = (if fatal m st then [st] else st # consumed m rest)"

fun is_read :: "step \<Rightarrow> bool" where
  "is_read (Act a) = False"
| "is_read st = True"

fun succeeded :: "step \<Rightarrow> bool" where
  "succeeded (ReadOk data pres) = True"
| "succeeded st = False"

text \<open>The hooks that a script registers, in order.\<close>

fun registrations :: "step list \<Rightarrow> EventFunc list" where
  "registrations [] = []"
| "registrations (Act (CallAddOnClose f) # rest) = f # registrations rest"
| "registrations (st # rest) = registrations rest"

fun add_hooks :: "EventFunc list \<Rightarrow> session \<Rightarrow> session" where
  "add_hooks [] s = s"
| "add_hooks (f # fs) s = add_hooks fs (AddOnClose f s)"

fun sets_key :: "key \<Rightarrow> action \<Rightarrow> bool" where
  "sets_key k (CallSetContextValue k' v) = (k = k')"
| "sets_key k a = False"

fun is_encoding_error :: "error option \<Rightarrow> bool" where
  "is_encoding_error (Some (Errorf m (MarshalError e))) = (m = ''cannot marshal: '')"
| "is_encoding_error r = False"

text \<open>
  The context below the values attached to it, and the link between a session and the
  context \<open>ctx0\<close> it was made from: under the values lies the cancellable context that
  \<open>NewSession\<close> derived from \<open>ctx0\<close>, and that context has been cancelled exactly when
  the trace has a call of the session's cancel function.
\<close>

fun ctx_root :: "context \<Rightarrow> context" where
  "ctx_root (WithValue c k v) = ctx_root c"
| "ctx_root c = c"

definition linked :: "context \<Rightarrow> session \<Rightarrow> bool" where
  "linked ctx0 s \<longleftrightarrow>
     ctx_root (ctx s) = WithCancel ctx0 (cancel s) \<and>
     (cancel s \<in> cancelledCtxs s \<longleftrightarrow> EvCancel \<in> set (trace s))"

fun step_sets_key :: "key \<Rightarrow> step \<Rightarrow> bool" where
  "step_sets_key k (Act a) = sets_key k a"
| "step_sets_key k st = False"

fun cmd_sets_key :: "key \<Rightarrow> cmd \<Rightarrow> bool" where
  "cmd_sets_key k (Do a) = sets_key k a"
| "cmd_sets_key k (DoRun cres script) = list_ex (step_sets_key k) script"

text \<open>
  How many more times the goroutine of \<open>Run\<close> can still receive from the timer's
  channel, added to the times it has.
\<close>

definition recv_budget :: "session \<Rightarrow> nat" where
  "recv_budget s = timer_recvs (trace s) + (if waiter s = Waiting then 1 else 0)"

subsection \<open>Concrete inputs\<close>

text \<open>
  A session over connection 1 with two hooks registered, and a script: one datagram
  processed, a third hook registered by another goroutine, then a read error.
\<close>

definition demo_session :: session where
  "demo_session = add_hooks [4, 5] (NewSession Background 1 64 True)"

definition demo_script :: "step list" where
  "demo_script = [ReadOk [1, 2] None, Act (CallAddOnClose 6), ReadErr 3]"

section \<open>Lemmas\<close>

subsection \<open>Traces, hooks and the deferred function\<close>

lemma hooks_fired_append [simp]: "hooks_fired (a @ b) = hooks_fired a @ hooks_fired b"
  by (induction a rule: hooks_fired.induct) simp_all

lemma hooks_fired_map [simp]: "hooks_fired (map EvHook fs) = fs"
  by (induction fs) simp_all

lemma conn_closes_append [simp]: "conn_closes (a @ b) = conn_closes a + conn_closes b"
  by (induction a rule: conn_closes.induct) simp_all

lemma conn_closes_map [simp]: "conn_closes (map EvHook fs) = 0"
  by (induction fs) simp_all

lemma timer_resets_append [simp]: "timer_resets d (a @ b) = timer_resets d a + timer_resets d b"
  by (induction d a rule: timer_resets.induct) simp_all

lemma timer_resets_map [simp]: "timer_resets d (map EvHook fs) = 0"
  by (induction fs) simp_all

lemma reads_returned_append [simp]: "reads_returned (a @ b) = reads_returned a + reads_returned b"
  by (induction a rule: reads_returned.induct) simp_all

lemma reads_returned_map [simp]: "reads_returned (map EvHook fs) = 0"
  by (induction fs) simp_all

lemma timer_recvs_append [simp]: "timer_recvs (a @ b) = timer_recvs a + timer_recvs b"
  by (induction a rule: timer_recvs.induct) simp_all

lemma timer_recvs_map [simp]: "timer_recvs (map EvHook fs) = 0"
  by (induction fs) simp_all

lemma first_error_single [simp]: "first_error [x] = x"
  by (cases x) simp_all

lemma call_hooks_eq: "call_hooks fs s = s\<lparr>trace := trace s @ map EvHook fs\<rparr>"
  by (induction fs arbitrary: s) (simp_all add: call_hook_def)

lemma close_eq:
  "close cres s =
     (if closeSocket s then map_option TransportError cres else None,
      s\<lparr>onClose := [],
        trace := trace s @ map EvHook (onClose s) @
                 (if closeSocket s then [EvConnClose (connection s)] else [])\<rparr>)"
  by (simp add: close_def popOnClose_def call_hooks_eq)

lemma Run_deferred_eq:
  "Run_deferred cres err s =
     (first_error [err, None, if closeSocket s then map_option TransportError cres else None],
      s\<lparr>onClose := [],
        cancelledCtxs := insert (cancel s) (cancelledCtxs s),
        trace := trace s @ [EvCancel] @ map EvHook (onClose s) @
                 (if closeSocket s then [EvConnClose (connection s)] else [])\<rparr>)"
  by (cases err) (simp_all add: Run_deferred_def Close_def close_eq)

lemma act_frame [simp]:
  "connection (act a s) = connection s"
  "maxMessageSize (act a s) = maxMessageSize s"
  "closeSocket (act a s) = closeSocket s"
  "cancel (act a s) = cancel s"
  by (cases a; simp add: Close_def AddOnClose_def SetContextValue_def WriteMessage_def
        timer_expire_def timer_goroutine_def timer_Stop_def Let_def split: sum.splits)+

lemma act_onClose:
  "onClose (act a s) = onClose s @ registrations [Act a]"
  by (cases a; simp add: Close_def AddOnClose_def SetContextValue_def WriteMessage_def
        timer_expire_def timer_goroutine_def timer_Stop_def Let_def split: sum.splits)

lemma act_trace_prefix: "\<exists>t. trace (act a s) = trace s @ t"
  by (cases a; simp add: Close_def AddOnClose_def SetContextValue_def WriteMessage_def
        timer_expire_def timer_goroutine_def timer_Stop_def Let_def split: sum.splits)

lemma act_observed [simp]:
  "hooks_fired (trace (act a s)) = hooks_fired (trace s)"
  "conn_closes (trace (act a s)) = conn_closes (trace s)"
  "timer_resets d (trace (act a s)) = timer_resets d (trace s)"
  "reads_returned (trace (act a s)) = reads_returned (trace s)"
  by (cases a; simp add: Close_def AddOnClose_def SetContextValue_def WriteMessage_def
        timer_expire_def timer_goroutine_def timer_Stop_def Let_def split: sum.splits)+

lemma Run_loop_frame [simp]:
  "connection (snd (Run_loop script s)) = connection s"
  "maxMessageSize (snd (Run_loop script s)) = maxMessageSize s"
  "closeSocket (snd (Run_loop script s)) = closeSocket s"
  "cancel (snd (Run_loop script s)) = cancel s"
  by (induction script s rule: Run_loop.induct;
      simp add: timer_Reset_def Let_def split: option.splits)+

lemma Run_loop_induct [case_names Nil Act ReadErr ReadOk]:
  assumes "\<And>s. P [] s"
    and "\<And>a rest s. P rest (act a s) \<Longrightarrow> P (Act a # rest) s"
    and "\<And>e rest s. P (ReadErr e # rest) s"
    and "\<And>data pres rest s.
           (\<not> fatal (maxMessageSize s) (ReadOk data pres) \<Longrightarrow>
            P rest (s\<lparr>timerArmed := True,
                      trace := trace s @ [EvRead (connection s) (Context s), EvTimerReset timeout,
                                          EvProcess data]\<rparr>)) \<Longrightarrow>
           P (ReadOk data pres # rest) s"
  shows "P script s"
proof (induction script s rule: Run_loop.induct)
  case (4 data pres rest s)
  show ?case
  proof (rule assms(4))
    assume "\<not> fatal (maxMessageSize s) (ReadOk data pres)"
    then have ok: "\<not> maxMessageSize s < int (length data)" "pres = None"
      by simp_all
    from 4 [OF refl refl _ refl ok(2)] ok(1)
    show "P rest (s\<lparr>timerArmed := True,
                      trace := trace s @ [EvRead (connection s) (Context s), EvTimerReset timeout,
                                          EvProcess data]\<rparr>)"
      by (simp add: timer_Reset_def)
  qed
qed (simp_all add: assms)

lemma Run_loop_trace_prefix: "\<exists>t. trace (snd (Run_loop script s)) = trace s @ t"
proof (induction script s rule: Run_loop_induct)
  case (Act a rest s)
  then obtain t2 where "trace (snd (Run_loop rest (act a s))) = trace (act a s) @ t2"
    by blast
  moreover obtain t1 where "trace (act a s) = trace s @ t1"
    using act_trace_prefix by blast
  ultimately show ?case by simp
next
  case (ReadOk data pres rest s)
  show ?case
  proof (cases "fatal (maxMessageSize s) (ReadOk data pres)")
    case True
    then show ?thesis
      by (auto simp add: timer_Reset_def Let_def)
  next
    case False
    from ReadOk [OF False] False show ?thesis
      by (auto simp add: timer_Reset_def Let_def)
  qed
qed (simp_all add: timer_Reset_def Let_def)

lemma Run_loop_observed [simp]:
  "hooks_fired (trace (snd (Run_loop script s))) = hooks_fired (trace s)"
  "conn_closes (trace (snd (Run_loop script s))) = conn_closes (trace s)"
  by (induction script s rule: Run_loop.induct;
      simp add: timer_Reset_def Let_def split: option.splits)+

lemma registrations_Act: "registrations (Act a # rest) = registrations [Act a] @ registrations rest"
  by (cases a) simp_all

lemma Run_loop_onClose:
  "onClose (snd (Run_loop script s)) =
     onClose s @ registrations (consumed (maxMessageSize s) script)"
proof (induction script s rule: Run_loop.induct)
  case (2 a rest s)
  have "onClose (snd (Run_loop (Act a # rest) s)) =
          onClose (act a s) @ registrations (consumed (maxMessageSize s) rest)"
    using 2 by simp
  also have "\<dots> = onClose s @ registrations (Act a # consumed (maxMessageSize s) rest)"
    by (simp add: act_onClose registrations_Act [of a "consumed (maxMessageSize s) rest"])
  finally show ?case by simp
qed (simp_all add: timer_Reset_def Let_def split: option.splits)


lemma Run_loop_error:
  "fst (Run_loop script s) \<noteq> Some (Returned None)"
  by (induction script s rule: Run_loop.induct)
     (simp_all add: timer_Reset_def Let_def split: option.splits)

lemma Run_loop_reads:
  "reads_returned (trace (snd (Run_loop script s))) =
     reads_returned (trace s) + length (filter is_read (consumed (maxMessageSize s) script))"
  "timer_resets timeout (trace (snd (Run_loop script s))) =
     timer_resets timeout (trace s) + length (filter is_read (consumed (maxMessageSize s) script))"
  by (induction script s rule: Run_loop.induct;
      simp add: timer_Reset_def Let_def split: option.splits)+



subsection \<open>The trace of a run that returns\<close>

lemma Run_trace:
  assumes "fst (Run cres script s) \<noteq> None"
  shows "\<exists>t1. trace (snd (Run cres script s)) =
           trace s @ t1 @ EvCancel #
             map EvHook (onClose s @
               (if maxMessageSize s < 0 then []
                else registrations (consumed (maxMessageSize s) script))) @
             (if closeSocket s then [EvConnClose (connection s)] else []) \<and>
           hooks_fired t1 = [] \<and> conn_closes t1 = 0"
proof (cases "maxMessageSize s < 0")
  case True
  then have "trace (snd (Run cres script s)) =
           trace s @ [] @ EvCancel # map EvHook (onClose s @ []) @
             (if closeSocket s then [EvConnClose (connection s)] else [])"
    by (simp add: Run_def Run_deferred_eq)
  with True show ?thesis by fastforce
next
  case False
  obtain o3 s3 where l: "Run_loop script (Run_begin s) = (o3, s3)"
    by (cases "Run_loop script (Run_begin s)")
  with assms False obtain out where o3: "o3 = Some out"
    by (cases o3) (auto simp add: Run_def)
  have s3: "s3 = snd (Run_loop script (Run_begin s))"
    using l by simp
  obtain t where t: "trace s3 = trace (Run_begin s) @ t"
    unfolding s3 using Run_loop_trace_prefix by blast
  have "hooks_fired (trace s3) = hooks_fired (trace (Run_begin s))"
    "conn_closes (trace s3) = conn_closes (trace (Run_begin s))"
    unfolding s3 by simp_all
  with t have t0: "hooks_fired t = []" "conn_closes t = 0"
    by simp_all
  have oc: "onClose s3 = onClose s @ registrations (consumed (maxMessageSize s) script)"
    unfolding s3 by (simp add: Run_loop_onClose) (simp add: Run_begin_def NewTimer_def)
  have fr: "closeSocket s3 = closeSocket s" "connection s3 = connection s"
    unfolding s3 by (simp_all add: Run_begin_def NewTimer_def)
  have "trace (snd (Run cres script s)) =
          trace s3 @ [EvTimerStop, EvCancel] @ map EvHook (onClose s3) @
            (if closeSocket s3 then [EvConnClose (connection s3)] else [])"
    using False l o3
    by (cases out) (simp_all add: Run_def Run_deferred_eq timer_Stop_def)
  then have "trace (snd (Run cres script s)) =
          trace s @ (EvNewTimer timeout # t @ [EvTimerStop]) @ EvCancel #
            map EvHook (onClose s @ registrations (consumed (maxMessageSize s) script)) @
            (if closeSocket s then [EvConnClose (connection s)] else [])"
    using t oc fr by (simp add: Run_begin_def NewTimer_def)
  moreover have "hooks_fired (EvNewTimer timeout # t @ [EvTimerStop]) = []"
    "conn_closes (EvNewTimer timeout # t @ [EvTimerStop]) = 0"
    using t0 by simp_all
  ultimately show ?thesis
    using False by (intro exI [of _ "EvNewTimer timeout # t @ [EvTimerStop]"]) simp
qed


subsection \<open>The idle timer\<close>

lemma reset_follows_read_append [simp]:
  "reset_follows_read a \<Longrightarrow> reset_follows_read (a @ b) = reset_follows_read b"
proof (induction a)
  case Nil
  then show ?case by simp
next
  case (Cons e t)
  show ?case
  proof (cases "is_EvRead e")
    case True
    with Cons.prems obtain e' t' where "t = e' # t'" "e' = EvTimerReset timeout"
        "reset_follows_read t"
      by (cases t) simp_all
    with True Cons.IH show ?thesis by simp
  next
    case False
    with Cons show ?thesis by simp
  qed
qed

lemma reset_follows_read_map [simp]:
  "reset_follows_read (map EvHook fs @ b) = reset_follows_read b"
  "reset_follows_read (map EvHook fs)"
  by (induction fs) (simp_all add: is_EvRead_def)

lemma act_reset_follows_read:
  "reset_follows_read (trace s) \<Longrightarrow> reset_follows_read (trace (act a s))"
  by (cases a; simp add: is_EvRead_def Close_def AddOnClose_def SetContextValue_def WriteMessage_def
        timer_expire_def timer_goroutine_def timer_Stop_def Let_def split: sum.splits)

lemma Run_loop_reset_follows_read:
  "reset_follows_read (trace s) \<Longrightarrow> reset_follows_read (trace (snd (Run_loop script s)))"
proof (induction script s rule: Run_loop.induct)
  case (2 a rest s)
  then show ?case by (simp add: act_reset_follows_read)
next
  case (4 data pres rest s)
  then show ?case
    by (cases pres) (simp_all add: timer_Reset_def Let_def is_EvRead_def)
qed (simp_all add: timer_Reset_def Let_def is_EvRead_def)

lemma act_recv_budget: "recv_budget (act a s) \<le> recv_budget s"
  by (cases a; simp add: recv_budget_def Close_def AddOnClose_def SetContextValue_def
        WriteMessage_def timer_expire_def timer_goroutine_def timer_Stop_def Let_def
        split: sum.splits)

lemma Run_loop_recv_budget: "recv_budget (snd (Run_loop script s)) \<le> recv_budget s"
proof (induction script s rule: Run_loop_induct)
  case (Act a rest s)
  then show ?case
    using act_recv_budget [of a s] by simp
next
  case (ReadOk data pres rest s)
  show ?case
  proof (cases "fatal (maxMessageSize s) (ReadOk data pres)")
    case True
    then show ?thesis
      by (auto simp add: timer_Reset_def Let_def recv_budget_def split: option.splits)
  next
    case False
    from ReadOk [OF False] False show ?thesis
      by (simp add: timer_Reset_def Let_def recv_budget_def)
  qed
qed (simp_all add: timer_Reset_def Let_def recv_budget_def)

lemma Run_timer:
  assumes "0 \<le> maxMessageSize s"
  shows "trace (snd (Run cres script s)) =
           trace (snd (Run_loop script (Run_begin s))) @
           (if fst (Run cres script s) = None then []
            else [EvTimerStop, EvCancel] @
                 map EvHook (onClose (snd (Run_loop script (Run_begin s)))) @
                 (if closeSocket s then [EvConnClose (connection s)] else []))"
proof -
  obtain o3 s3 where l: "Run_loop script (Run_begin s) = (o3, s3)"
    by (cases "Run_loop script (Run_begin s)")
  have s3: "s3 = snd (Run_loop script (Run_begin s))"
    using l by simp
  have fr: "closeSocket s3 = closeSocket s" "connection s3 = connection s"
    unfolding s3 by (simp_all add: Run_begin_def NewTimer_def)
  show ?thesis
  proof (cases o3)
    case None
    with assms l show ?thesis by (simp add: Run_def)
  next
    case (Some out)
    with assms l fr show ?thesis
      by (cases out) (simp_all add: Run_def Run_deferred_eq timer_Stop_def)
  qed
qed

lemma stuck_act:
  assumes "waiter s = Waiting \<and> \<not> timerArmed s \<and> \<not> timerC s"
  shows "waiter (act a s) = Waiting \<and> \<not> timerArmed (act a s) \<and> \<not> timerC (act a s)"
  using assms
  by (cases a) (simp_all add: Close_def AddOnClose_def SetContextValue_def WriteMessage_def
        timer_expire_def timer_goroutine_def split: sum.splits)

lemma stuck_acts:
  assumes "waiter s = Waiting \<and> \<not> timerArmed s \<and> \<not> timerC s"
  shows "waiter (acts as s) = Waiting"
  using assms
proof (induction as arbitrary: s)
  case Nil
  then show ?case by simp
next
  case (Cons a as)
  from stuck_act [OF Cons.prems] show ?case
    by (simp add: Cons.IH)
qed

lemma acts_hooks_fired: "hooks_fired (trace (acts as s)) = hooks_fired (trace s)"
  by (induction as arbitrary: s) simp_all

subsection \<open>The context of a session\<close>

lemma next_id_fresh: "i \<in> ctx_ids c \<Longrightarrow> i < next_id c"
  by (induction c) auto

lemma NewSession_cancel_fresh: "cancel (NewSession ctx0 conn mms cs) \<notin> ctx_ids ctx0"
  using next_id_fresh [of "next_id ctx0" ctx0] by (auto simp add: NewSession_def)

lemma ctx_done_root: "ctx_done cs (ctx_root c) = ctx_done cs c"
  by (induction c) simp_all

lemma linked_Done:
  assumes "linked ctx0 s"
  shows "Done s \<longleftrightarrow> EvCancel \<in> set (trace s) \<or> ctx_done (cancelledCtxs s) ctx0"
proof -
  have "Done s = ctx_done (cancelledCtxs s) (ctx_root (ctx s))"
    by (simp add: Done_def Context_def ctx_done_root)
  with assms show ?thesis
    by (simp add: linked_def)
qed

lemma linked_NewSession: "linked ctx0 (NewSession ctx0 conn mms cs)"
  by (simp add: linked_def NewSession_def)

lemma linked_act:
  assumes "linked ctx0 s"
  shows "linked ctx0 (act a s)"
  using assms
  by (cases a) (auto simp add: linked_def Close_def AddOnClose_def SetContextValue_def
        WriteMessage_def timer_expire_def timer_goroutine_def timer_Stop_def Context_def
        split: sum.splits)

lemma linked_Run_loop:
  assumes "linked ctx0 s"
  shows "linked ctx0 (snd (Run_loop script s))"
  using assms
proof (induction script s rule: Run_loop_induct)
  case (Act a rest s)
  then show ?case by (simp add: linked_act)
next
  case (ReadOk data pres rest s)
  show ?case
  proof (cases "fatal (maxMessageSize s) (ReadOk data pres)")
    case True
    with ReadOk.prems show ?thesis
      by (auto simp add: timer_Reset_def Let_def linked_def split: option.splits)
  next
    case False
    have "linked ctx0 (s\<lparr>timerArmed := True,
        trace := trace s @ [EvRead (connection s) (Context s), EvTimerReset timeout,
                            EvProcess data]\<rparr>)"
      using ReadOk.prems by (simp add: linked_def)
    from ReadOk.IH [OF False this] False show ?thesis
      by (simp add: timer_Reset_def Let_def)
  qed
qed (simp_all add: timer_Reset_def Let_def linked_def)

lemma Run_returned_cancel:
  assumes "fst (Run cres script s) \<noteq> None"
  shows "EvCancel \<in> set (trace (snd (Run cres script s)))"
  using Run_trace [OF assms] by auto

lemma linked_Run:
  assumes "linked ctx0 s"
  shows "linked ctx0 (snd (Run cres script s))"
proof (cases "maxMessageSize s < 0")
  case True
  with assms show ?thesis
    by (simp add: Run_def Run_deferred_eq linked_def)
next
  case False
  have b: "linked ctx0 (Run_begin s)"
    using assms by (simp add: linked_def Run_begin_def NewTimer_def)
  obtain o3 s3 where l: "Run_loop script (Run_begin s) = (o3, s3)"
    by (cases "Run_loop script (Run_begin s)")
  have s3: "linked ctx0 s3"
    using linked_Run_loop [OF b, of script] l by simp
  show ?thesis
  proof (cases o3)
    case None
    with False l s3 show ?thesis by (simp add: Run_def)
  next
    case (Some out)
    with False l s3 show ?thesis
      by (cases out) (simp_all add: Run_def Run_deferred_eq timer_Stop_def linked_def)
  qed
qed

lemma linked_exec:
  assumes "linked ctx0 s"
  shows "linked ctx0 (exec cmds s)"
  using assms
proof (induction cmds s rule: exec.induct)
  case (2 a cs s)
  then show ?case by (simp add: linked_act)
next
  case (3 cres script cs s)
  then show ?case by (simp add: linked_Run)
qed simp

lemma act_ctx_Value:
  assumes "\<not> sets_key k a"
  shows "ctx_Value (ctx (act a s)) k = ctx_Value (ctx s) k"
  using assms
  by (cases a) (simp_all add: Close_def AddOnClose_def SetContextValue_def WriteMessage_def
        timer_expire_def timer_goroutine_def timer_Stop_def Context_def split: sum.splits)

lemma Run_loop_ctx_Value:
  assumes "\<not> list_ex (step_sets_key k) script"
  shows "ctx_Value (ctx (snd (Run_loop script s))) k = ctx_Value (ctx s) k"
  using assms
proof (induction script s rule: Run_loop_induct)
  case (Act a rest s)
  then show ?case by (simp add: act_ctx_Value)
next
  case (ReadOk data pres rest s)
  show ?case
  proof (cases "fatal (maxMessageSize s) (ReadOk data pres)")
    case True
    then show ?thesis
      by (auto simp add: timer_Reset_def Let_def split: option.splits)
  next
    case False
    from ReadOk.prems have "\<not> list_ex (step_sets_key k) rest" by simp
    from ReadOk.IH [OF False this] False show ?thesis
      by (simp add: timer_Reset_def Let_def)
  qed
qed (simp_all add: timer_Reset_def Let_def)

lemma Run_ctx:
  "ctx (snd (Run cres script s)) =
     (if maxMessageSize s < 0 then ctx s else ctx (snd (Run_loop script (Run_begin s))))"
proof (cases "maxMessageSize s < 0")
  case True
  then show ?thesis by (simp add: Run_def Run_deferred_eq)
next
  case False
  obtain o3 s3 where l: "Run_loop script (Run_begin s) = (o3, s3)"
    by (cases "Run_loop script (Run_begin s)")
  show ?thesis
  proof (cases o3)
    case None
    with False l show ?thesis by (simp add: Run_def)
  next
    case (Some out)
    with False l show ?thesis
      by (cases out) (simp_all add: Run_def Run_deferred_eq timer_Stop_def)
  qed
qed

lemma exec_ctx_Value:
  assumes "\<forall>c\<in>set cmds. \<not> cmd_sets_key k c"
  shows "ctx_Value (ctx (exec cmds s)) k = ctx_Value (ctx s) k"
  using assms
proof (induction cmds s rule: exec.induct)
  case (2 a cs s)
  then show ?case by (simp add: act_ctx_Value)
next
  case (3 cres script cs s)
  then show ?case
    by (simp add: Run_ctx Run_loop_ctx_Value) (simp add: Run_begin_def NewTimer_def)
qed simp

subsection \<open>Evaluation of the concrete inputs\<close>

lemmas demo_defs = demo_session_def demo_script_def NewSession_def AddOnClose_def Run_def Run_begin_def
  NewTimer_def timer_Reset_def timer_Stop_def Run_deferred_def Close_def close_def popOnClose_def
  call_hook_def Context_def timer_expire_def timer_goroutine_def is_EvRead_def

section \<open>Properties\<close>

subsection \<open>Teardown of Run\<close>

text \<open>
  C1. Whenever the loop of \<open>Run\<close> ends (by a read error, a processing error or a
  panic), the cleanup runs once: after the timer is stopped the context is cancelled, then
  the hooks registered so far are taken and called in the order of their registration,
  then the connection is closed if \<open>closeSocket\<close> is set. What \<open>Run\<close> returns is the
  first error that is not nil among the loop's, the one of \<open>Close\<close> and the one of
  \<open>close\<close>. The same cleanup runs when the allocation of the buffer panics.
\<close>

theorem Run_teardown:
  "(0 \<le> maxMessageSize s \<and> fst (Run_loop script (Run_begin s)) = Some out \<longrightarrow>
      (let s3 = snd (Run_loop script (Run_begin s));
           s4 = timer_Stop s3;
           s5 = snd (Close s4)
       in Run cres script s =
            (Some (case out of
                     Returned err \<Rightarrow>
                       Returned (first_error [err, fst (Close s4), fst (close cres s5)])
                   | Panicked \<Rightarrow> Panicked),
             s3\<lparr>onClose := [], timerArmed := False,
                cancelledCtxs := insert (cancel s) (cancelledCtxs s3),
                trace := trace s3 @ [EvTimerStop, EvCancel] @ map EvHook (onClose s3) @
                         (if closeSocket s then [EvConnClose (connection s)] else [])\<rparr>)))
   \<and> (maxMessageSize s < 0 \<longrightarrow>
        Run cres script s =
          (Some Panicked,
           s\<lparr>onClose := [],
              cancelledCtxs := insert (cancel s) (cancelledCtxs s),
              trace := trace s @ [EvCancel] @ map EvHook (onClose s) @
                       (if closeSocket s then [EvConnClose (connection s)] else [])\<rparr>))"
proof (intro conjI impI)
  assume a: "0 \<le> maxMessageSize s \<and> fst (Run_loop script (Run_begin s)) = Some out"
  obtain s3 where s3: "Run_loop script (Run_begin s) = (Some out, s3)"
    using a by (cases "Run_loop script (Run_begin s)") simp
  have "s3 = snd (Run_loop script (Run_begin s))"
    using s3 by simp
  then have fr: "closeSocket s3 = closeSocket s" "connection s3 = connection s"
      "cancel s3 = cancel s"
    by (simp_all add: Run_begin_def NewTimer_def)
  show "let s3 = snd (Run_loop script (Run_begin s));
           s4 = timer_Stop s3;
           s5 = snd (Close s4)
       in Run cres script s =
            (Some (case out of
                     Returned err \<Rightarrow>
                       Returned (first_error [err, fst (Close s4), fst (close cres s5)])
                   | Panicked \<Rightarrow> Panicked),
             s3\<lparr>onClose := [], timerArmed := False,
                cancelledCtxs := insert (cancel s) (cancelledCtxs s3),
                trace := trace s3 @ [EvTimerStop, EvCancel] @ map EvHook (onClose s3) @
                         (if closeSocket s then [EvConnClose (connection s)] else [])\<rparr>)"
  proof (cases out)
    case (Returned err)
    with a s3 fr show ?thesis
      by (simp add: Run_def Run_deferred_eq timer_Stop_def Close_def close_eq)
  next
    case Panicked
    with a s3 fr show ?thesis
      by (simp add: Run_def Run_deferred_eq timer_Stop_def)
  qed
next
  assume "maxMessageSize s < 0"
  then show "Run cres script s =
          (Some Panicked,
           s\<lparr>onClose := [],
              cancelledCtxs := insert (cancel s) (cancelledCtxs s),
              trace := trace s @ [EvCancel] @ map EvHook (onClose s) @
                       (if closeSocket s then [EvConnClose (connection s)] else [])\<rparr>)"
    by (simp add: Run_def Run_deferred_eq)
qed

theorem Run_teardown_witness:
  "0 \<le> maxMessageSize demo_session \<and>
   fst (Run_loop demo_script (Run_begin demo_session)) = Some (Returned (Some (TransportError 3))) \<and>
   fst (Run (Some 7) demo_script demo_session) = Some (Returned (Some (TransportError 3))) \<and>
   trace (snd (Run (Some 7) demo_script demo_session)) =
     [EvNewTimer timeout,
      EvRead 1 (WithCancel Background 0), EvTimerReset timeout, EvProcess [1, 2],
      EvRead 1 (WithCancel Background 0), EvTimerReset timeout,
      EvTimerStop, EvCancel, EvHook 4, EvHook 5, EvHook 6, EvConnClose 1] \<and>
   maxMessageSize (NewSession Background 1 (- 1) False) < 0 \<and>
   Run None [] (NewSession Background 1 (- 1) False) =
     (Some Panicked, (NewSession Background 1 (- 1) False)\<lparr>cancelledCtxs := {0}, trace := [EvCancel]\<rparr>)"
  using Run_teardown [of demo_session demo_script "Returned (Some (TransportError 3))" "Some 7"]
    Run_teardown [of "NewSession Background 1 (- 1) False" "[]" Panicked None]
  by (simp add: demo_defs)

subsection \<open>Close hooks\<close>



subsection \<open>Closing the transport\<close>



text \<open>
  C10. \<open>Close\<close> returns nil in every state, so the cancellation never contributes an
  error to the deferred function: its result is the first error among the loop's and
  that of \<open>close\<close>. An error returned by \<open>Run\<close> is the loop's own, or the error of the
  transport's \<open>Close\<close>, the latter only if \<open>closeSocket\<close> is set.
\<close>

theorem Close_nil:
  "fst (Close s) = None \<and>
   fst (Run_deferred cres err s) =
     first_error [err, if closeSocket s then map_option TransportError cres else None] \<and>
   (fst (Run cres script s) = Some (Returned e) \<longrightarrow>
      fst (Run_loop script (Run_begin s)) = Some (Returned e) \<or>
      (closeSocket s \<and> e = map_option TransportError cres))"
proof (intro conjI impI)
  show "fst (Close s) = None"
    by (simp add: Close_def)
  show "fst (Run_deferred cres err s) =
     first_error [err, if closeSocket s then map_option TransportError cres else None]"
    by (cases err) (simp_all add: Run_deferred_eq)
  assume r: "fst (Run cres script s) = Some (Returned e)"
  then have mms: "\<not> maxMessageSize s < 0"
    by (auto simp add: Run_def)
  obtain o3 s3 where l: "Run_loop script (Run_begin s) = (o3, s3)"
    by (cases "Run_loop script (Run_begin s)")
  from r mms l obtain le where o3: "o3 = Some (Returned le)"
    by (cases o3; cases "the o3")
       (auto simp add: Run_def Let_def split: prod.splits)
  have "le \<noteq> None"
    using Run_loop_error [of script "Run_begin s"] l o3 by auto
  then obtain x where "le = Some x" by blast
  with r mms l o3 have "e = le"
    by (simp add: Run_def Let_def Run_deferred_eq)
  with l o3 show "fst (Run_loop script (Run_begin s)) = Some (Returned e) \<or>
      (closeSocket s \<and> e = map_option TransportError cres)"
    by simp
qed

theorem Close_nil_witness:
  "fst (Run (Some 7) demo_script demo_session) = Some (Returned (Some (TransportError 3))) \<and>
   fst (Run_loop demo_script (Run_begin demo_session)) = Some (Returned (Some (TransportError 3))) \<and>
   fst (Close demo_session) = None \<and>
   fst (Run_deferred (Some 7) None demo_session) = Some (TransportError 7)"
  using Close_nil [of demo_session "Some 7" None demo_script "Some (TransportError 3)"]
  by (simp add: demo_defs)

subsection \<open>WriteMessage\<close>

text \<open>
  C7. \<open>WriteMessage\<close> returns the encoding error exactly when \<open>Marshal\<close> fails, and
  then writes nothing and leaves the state as it was. When \<open>Marshal\<close> succeeds there is
  one write, of the marshalled bytes, under the context of the message, whatever the
  context of the session is; its result is returned as it is.
\<close>

theorem WriteMessage_result:
  "(is_encoding_error (fst (WriteMessage req wres s)) \<longleftrightarrow> isl (Marshal req)) \<and>
   (\<forall>e. Marshal req = Inl e \<longrightarrow>
      WriteMessage req wres s = (Some (Errorf ''cannot marshal: '' (MarshalError e)), s)) \<and>
   (\<forall>data. Marshal req = Inr data \<longrightarrow>
      WriteMessage req wres s =
        (map_option TransportError wres,
         s\<lparr>trace := trace s @ [EvWrite (connection s) (msgContext req) data]\<rparr>))"
  by (cases "Marshal req"; cases wres) (simp_all add: WriteMessage_def)

theorem WriteMessage_result_witness:
  "Marshal \<lparr>Marshal = Inl 2, msgContext = Background\<rparr> = Inl 2 \<and>
   WriteMessage \<lparr>Marshal = Inl 2, msgContext = Background\<rparr> (Some 1) demo_session =
     (Some (Errorf ''cannot marshal: '' (MarshalError 2)), demo_session) \<and>
   Marshal \<lparr>Marshal = Inr [1, 2], msgContext = WithCancel Background 9\<rparr> = Inr [1, 2] \<and>
   WriteMessage \<lparr>Marshal = Inr [1, 2], msgContext = WithCancel Background 9\<rparr> (Some 1) demo_session =
     (Some (TransportError 1),
      demo_session\<lparr>trace := [EvWrite 1 (WithCancel Background 9) [1, 2]]\<rparr>)"
  using WriteMessage_result [of "\<lparr>Marshal = Inl 2, msgContext = Background\<rparr>" "Some 1" demo_session]
    WriteMessage_result [of "\<lparr>Marshal = Inr [1, 2], msgContext = WithCancel Background 9\<rparr>"
      "Some 1" demo_session]
  by (simp add: demo_defs)

subsection \<open>The idle timer\<close>

text \<open>
  C4, as the code has it. The specification has it that a read that returns an error does not
  reset the timer. In \<open>Run\<close> the reset comes before the test of the read's error: a
  run whose only read fails has no successful read and one reset.
\<close>

theorem failed_read_resets_timer:
  "fst (Run None [ReadErr 3] (NewSession Background 1 64 True)) =
     Some (Returned (Some (TransportError 3))) \<and>
   length (filter succeeded [ReadErr 3]) = 0 \<and>
   timer_resets timeout (trace (snd (Run None [ReadErr 3] (NewSession Background 1 64 True)))) = 1 \<and>
   trace (snd (Run None [ReadErr 3] (NewSession Background 1 64 True))) =
     [EvNewTimer timeout, EvRead 1 (WithCancel Background 0), EvTimerReset timeout,
      EvTimerStop, EvCancel, EvConnClose 1]"
  by (simp add: demo_defs)

text \<open>
  C4, amended. \<open>Run\<close> creates the timer with a window of 300 seconds before its loop;
  every read that returns, with or without an error, is followed at once by a reset of
  the timer to that window, so the resets of a run are as many as the reads that
  returned; and the goroutine that finds the timer's value in the channel stops the
  timer, calls \<open>Close\<close> once and is gone: it receives at most once in a run, and a
  second scheduling of it does nothing.
\<close>

theorem timer_reset_after_every_read:
  "timeout = 300 * Second \<and> Second = 1000000000 \<and>
   (0 \<le> maxMessageSize s \<longrightarrow>
      (\<exists>t. trace (snd (Run cres script s)) = trace s @ EvNewTimer timeout # t) \<and>
      reads_returned (trace (snd (Run cres script s))) =
        reads_returned (trace s) + length (filter is_read (consumed (maxMessageSize s) script)) \<and>
      timer_resets timeout (trace (snd (Run cres script s))) =
        timer_resets timeout (trace s) + length (filter is_read (consumed (maxMessageSize s) script)) \<and>
      (reset_follows_read (trace s) \<longrightarrow> reset_follows_read (trace (snd (Run cres script s)))) \<and>
      timer_recvs (trace (snd (Run cres script s))) \<le> timer_recvs (trace s) + 1) \<and>
   (waiter s = Waiting \<and> timerC s \<longrightarrow>
      timer_goroutine s =
        s\<lparr>timerArmed := False, timerC := False, waiter := Exited,
          cancelledCtxs := insert (cancel s) (cancelledCtxs s),
          trace := trace s @ [EvTimerRecv, EvTimerStop, EvCancel]\<rparr>) \<and>
   timer_goroutine (timer_goroutine s) = timer_goroutine s"
proof (intro conjI impI)
  show "timeout = 300 * Second" "Second = 1000000000"
    by (simp_all add: timeout_def Second_def)
  show "timer_goroutine (timer_goroutine s) = timer_goroutine s"
    by (simp add: timer_goroutine_def timer_Stop_def Close_def)
next
  assume "waiter s = Waiting \<and> timerC s"
  then show "timer_goroutine s =
        s\<lparr>timerArmed := False, timerC := False, waiter := Exited,
          cancelledCtxs := insert (cancel s) (cancelledCtxs s),
          trace := trace s @ [EvTimerRecv, EvTimerStop, EvCancel]\<rparr>"
    by (simp add: timer_goroutine_def timer_Stop_def Close_def)
next
  assume m: "0 \<le> maxMessageSize s"
  let ?l = "snd (Run_loop script (Run_begin s))"
  let ?e = "if fst (Run cres script s) = None then []
            else [EvTimerStop, EvCancel] @ map EvHook (onClose ?l) @
                 (if closeSocket s then [EvConnClose (connection s)] else [])"
  have tr: "trace (snd (Run cres script s)) = trace ?l @ ?e"
    using Run_timer [OF m] .
  obtain t where t: "trace ?l = trace (Run_begin s) @ t"
    using Run_loop_trace_prefix by blast
  then have "trace (snd (Run cres script s)) = trace s @ EvNewTimer timeout # (t @ ?e)"
    using tr by (simp add: Run_begin_def NewTimer_def)
  then show "\<exists>t. trace (snd (Run cres script s)) = trace s @ EvNewTimer timeout # t"
    by blast
  show "reads_returned (trace (snd (Run cres script s))) =
        reads_returned (trace s) + length (filter is_read (consumed (maxMessageSize s) script))"
    unfolding tr by (simp add: Run_loop_reads) (simp add: Run_begin_def NewTimer_def)
  show "timer_resets timeout (trace (snd (Run cres script s))) =
        timer_resets timeout (trace s) + length (filter is_read (consumed (maxMessageSize s) script))"
    unfolding tr by (simp add: Run_loop_reads) (simp add: Run_begin_def NewTimer_def)
  have "recv_budget ?l \<le> recv_budget (Run_begin s)"
    by (rule Run_loop_recv_budget)
  then have "timer_recvs (trace ?l) \<le> timer_recvs (trace s) + 1"
    by (simp add: recv_budget_def Run_begin_def NewTimer_def split: if_splits)
  then show "timer_recvs (trace (snd (Run cres script s))) \<le> timer_recvs (trace s) + 1"
    unfolding tr by simp
  assume r: "reset_follows_read (trace s)"
  then have "reset_follows_read (trace (Run_begin s))"
    by (simp add: Run_begin_def NewTimer_def is_EvRead_def)
  then have "reset_follows_read (trace ?l)"
    by (rule Run_loop_reset_follows_read)
  then show "reset_follows_read (trace (snd (Run cres script s)))"
    unfolding tr by (simp add: is_EvRead_def)
qed

theorem timer_reset_after_every_read_witness:
  "0 \<le> maxMessageSize demo_session \<and>
   reads_returned (trace (snd (Run None demo_script demo_session))) = 2 \<and>
   timer_resets timeout (trace (snd (Run None demo_script demo_session))) = 2 \<and>
   reset_follows_read (trace demo_session) \<and>
   reset_follows_read (trace (snd (Run None demo_script demo_session))) \<and>
   waiter (timer_expire (Run_begin demo_session)) = Waiting \<and>
   timerC (timer_expire (Run_begin demo_session)) \<and>
   trace (timer_goroutine (timer_expire (Run_begin demo_session))) =
     [EvNewTimer timeout, EvTimerRecv, EvTimerStop, EvCancel] \<and>
   waiter (timer_goroutine (timer_expire (Run_begin demo_session))) = Exited"
  using timer_reset_after_every_read [of demo_session None demo_script]
    timer_reset_after_every_read [of "timer_expire (Run_begin demo_session)" None "[]"]
  by (simp add: demo_defs)

text \<open>
  C5. A session whose first read fails: \<open>Run\<close> returns that error with the timer
  stopped and its channel empty, and the goroutine is still waiting. Whatever the users
  and the environment do afterwards, it waits: the session has been closed and the
  goroutine has not ended.
\<close>

theorem timer_goroutine_never_exits:
  "fst (Run cres [ReadErr e] (NewSession ctx0 conn 64 cs)) =
     Some (Returned (Some (TransportError e))) \<and>
   waiter (snd (Run cres [ReadErr e] (NewSession ctx0 conn 64 cs))) = Waiting \<and>
   waiter (acts as (snd (Run cres [ReadErr e] (NewSession ctx0 conn 64 cs)))) = Waiting"
proof -
  let ?s = "snd (Run cres [ReadErr e] (NewSession ctx0 conn 64 cs))"
  have r: "fst (Run cres [ReadErr e] (NewSession ctx0 conn 64 cs)) =
     Some (Returned (Some (TransportError e)))"
    by (simp add: NewSession_def Run_def Run_begin_def NewTimer_def timer_Reset_def
        timer_Stop_def Run_deferred_eq)
  have st: "waiter ?s = Waiting \<and> \<not> timerArmed ?s \<and> \<not> timerC ?s"
    by (simp add: NewSession_def Run_def Run_begin_def NewTimer_def timer_Reset_def
        timer_Stop_def Run_deferred_eq)
  from r st stuck_acts [OF st] show ?thesis by simp
qed

subsection \<open>Hooks registered late\<close>

text \<open>
  C6, as the code has it. The specification has it that a hook registered after the hooks have
  been taken is executed at once. After a run of the concrete session has returned and
  has called its three hooks, \<open>AddOnClose 9\<close> calls nothing: the hook is put on the
  list.
\<close>

theorem late_hook_not_called:
  "fst (Run None demo_script demo_session) = Some (Returned (Some (TransportError 3))) \<and>
   onClose (snd (Run None demo_script demo_session)) = [] \<and>
   hooks_fired (trace (AddOnClose 9 (snd (Run None demo_script demo_session)))) = [4, 5, 6] \<and>
   onClose (AddOnClose 9 (snd (Run None demo_script demo_session))) = [9]"
  by (simp add: demo_defs)

text \<open>
  C6, amended. \<open>AddOnClose\<close> never calls the hook: it appends it to the list of
  pending hooks, at any time, and no action of a user or of the environment calls a
  pending hook. The hooks that are pending when \<open>close\<close> runs are all called by it, and
  the list is empty afterwards; a hook registered later stays pending until \<open>close\<close>
  runs again.
\<close>

theorem AddOnClose_only_appends:
  "trace (AddOnClose f s) = trace s \<and>
   onClose (AddOnClose f s) = onClose s @ [f] \<and>
   hooks_fired (trace (acts as (AddOnClose f s))) = hooks_fired (trace s) \<and>
   hooks_fired (trace (snd (close cres s))) = hooks_fired (trace s) @ onClose s \<and>
   onClose (snd (close cres s)) = []"
  by (simp add: acts_hooks_fired) (simp add: AddOnClose_def close_eq)

theorem AddOnClose_only_appends_witness:
  "hooks_fired (trace (acts [CallClose, Goroutine] (AddOnClose 9 demo_session))) = [] \<and>
   hooks_fired (trace (snd (close None (AddOnClose 9 demo_session)))) = [4, 5, 9]"
  using AddOnClose_only_appends [of 9 demo_session "[CallClose, Goroutine]" None]
  by (simp add: demo_defs)

subsection \<open>The context\<close>

text \<open>
  C8, as the code has it. The specification has it that \<open>Done\<close> is signalled only if \<open>Close\<close> has
  been called or \<open>Run\<close> has returned. The context of a session is derived from the one
  given to \<open>NewSession\<close>: when the owner of that context cancels it, \<open>Done\<close> is
  signalled although nothing has been called on the session (its trace is empty).
\<close>

theorem parent_cancel_signals_Done:
  "Done (exec [Do (ExtCancel 0)] (NewSession (WithCancel Background 0) 1 64 True)) \<and>
   trace (exec [Do (ExtCancel 0)] (NewSession (WithCancel Background 0) 1 64 True)) = []"
  by (simp add: NewSession_def Done_def Context_def)

text \<open>
  C8, amended. After any history of a session made by \<open>NewSession\<close> from \<open>ctx0\<close>,
  \<open>Done\<close> is signalled exactly when the session's cancel function has been called or
  \<open>ctx0\<close> is done. The cancel function is called by \<open>Close\<close>, whoever calls it, and a
  run that has returned has called it.
\<close>

theorem Done_iff_cancelled:
  "(Done (exec cmds (NewSession ctx0 conn mms cs)) \<longleftrightarrow>
      EvCancel \<in> set (trace (exec cmds (NewSession ctx0 conn mms cs))) \<or>
      ctx_done (cancelledCtxs (exec cmds (NewSession ctx0 conn mms cs))) ctx0) \<and>
   trace (snd (Close s)) = trace s @ [EvCancel] \<and>
   (fst (Run cres script s) \<noteq> None \<longrightarrow> EvCancel \<in> set (trace (snd (Run cres script s))))"
proof (intro conjI impI)
  have "linked ctx0 (exec cmds (NewSession ctx0 conn mms cs))"
    by (rule linked_exec) (rule linked_NewSession)
  then show "Done (exec cmds (NewSession ctx0 conn mms cs)) \<longleftrightarrow>
      EvCancel \<in> set (trace (exec cmds (NewSession ctx0 conn mms cs))) \<or>
      ctx_done (cancelledCtxs (exec cmds (NewSession ctx0 conn mms cs))) ctx0"
    by (rule linked_Done)
  show "trace (snd (Close s)) = trace s @ [EvCancel]"
    by (simp add: Close_def)
  assume "fst (Run cres script s) \<noteq> None"
  then show "EvCancel \<in> set (trace (snd (Run cres script s)))"
    by (rule Run_returned_cancel)
qed

theorem Done_iff_cancelled_witness:
  "fst (Run None demo_script (NewSession Background 1 64 True)) \<noteq> None \<and>
   Done (exec [DoRun None demo_script] (NewSession Background 1 64 True)) \<and>
   Done (exec [Do CallClose] (NewSession Background 1 64 True)) \<and>
   \<not> Done (exec [Do (CallAddOnClose 4)] (NewSession Background 1 64 True))"
  using Done_iff_cancelled [of "[DoRun None demo_script]" Background 1 64 True
      "NewSession Background 1 64 True" None demo_script]
    Done_iff_cancelled [of "[Do CallClose]" Background 1 64 True
      "NewSession Background 1 64 True" None demo_script]
    Done_iff_cancelled [of "[Do (CallAddOnClose 4)]" Background 1 64 True
      "NewSession Background 1 64 True" None demo_script]
  by (simp add: demo_defs)

text \<open>
  C9. \<open>SetContextValue k v\<close> replaces the context by one that wraps the previous one
  and adds the pair. After it, and as long as no later \<open>SetContextValue\<close> is for the key
  \<open>k\<close>, the context of the session gives \<open>v\<close> for \<open>k\<close>, whatever else happens to the
  session. The new context is done exactly when the previous one is, whichever contexts
  have been cancelled, so that \<open>Close\<close> signals \<open>Done\<close> as before.
\<close>

theorem SetContextValue_read_back:
  "Context (SetContextValue k v s) = WithValue (Context s) k v \<and>
   ((\<forall>c\<in>set cmds. \<not> cmd_sets_key k c) \<longrightarrow>
      ctx_Value (Context (exec cmds (SetContextValue k v s))) k = Some v) \<and>
   ctx_done cs (Context (SetContextValue k v s)) = ctx_done cs (Context s) \<and>
   Done (snd (Close (SetContextValue k v s))) = Done (snd (Close s))"
proof (intro conjI impI)
  show "Context (SetContextValue k v s) = WithValue (Context s) k v"
    by (simp add: SetContextValue_def Context_def)
  show "ctx_done cs (Context (SetContextValue k v s)) = ctx_done cs (Context s)"
    by (simp add: SetContextValue_def Context_def)
  show "Done (snd (Close (SetContextValue k v s))) = Done (snd (Close s))"
    by (simp add: SetContextValue_def Context_def Done_def Close_def)
  assume "\<forall>c\<in>set cmds. \<not> cmd_sets_key k c"
  then have "ctx_Value (ctx (exec cmds (SetContextValue k v s))) k =
      ctx_Value (ctx (SetContextValue k v s)) k"
    by (rule exec_ctx_Value)
  then show "ctx_Value (Context (exec cmds (SetContextValue k v s))) k = Some v"
    by (simp add: SetContextValue_def Context_def)
qed

theorem SetContextValue_read_back_witness:
  "\<not> cmd_sets_key 7 (Do (CallSetContextValue 8 2)) \<and>
   \<not> cmd_sets_key 7 (DoRun None demo_script) \<and>
   ctx_Value (Context (exec [Do (CallSetContextValue 8 2), DoRun None demo_script]
                         (SetContextValue 7 1 demo_session))) 7 = Some 1 \<and>
   ctx_Value (Context (exec [Do (CallSetContextValue 8 2), DoRun None demo_script]
                         (SetContextValue 7 1 demo_session))) 8 = Some 2 \<and>
   Done (snd (Close (SetContextValue 7 1 demo_session)))"
proof -
  have h: "\<forall>c\<in>set [Do (CallSetContextValue 8 2), DoRun None demo_script]. \<not> cmd_sets_key 7 c"
    by (simp add: demo_script_def)
  show ?thesis
    using h SetContextValue_read_back [of 7 1 demo_session
        "[Do (CallSetContextValue 8 2), DoRun None demo_script]" "{}"]
    by (simp add: demo_defs SetContextValue_def Done_def)
qed

end
